theory Spec2Isabelle
  imports Main
begin

section \<open>Role hierarchy\<close>

text \<open>
  \<^verbatim>\<open>class SimpleAuthManagerRole(namedtuple("SimpleAuthManagerRole", "name order"), Enum)\<close>
  has four members, each a pair of a name and an order.
\<close>

datatype SimpleAuthManagerRole = VIEWER | USER | OP | ADMIN

fun name :: "SimpleAuthManagerRole \<Rightarrow> string" where
  "name VIEWER = ''VIEWER''"
| "name USER = ''USER''"
| "name OP = ''OP''"
| "name ADMIN = ''ADMIN''"

fun order :: "SimpleAuthManagerRole \<Rightarrow> nat" where
  "order VIEWER = 0"
| "order USER = 1"
| "order OP = 2"
| "order ADMIN = 3"

text \<open>The members of the enumeration, in the order of their declaration.\<close>

definition members :: "SimpleAuthManagerRole list" where
  "members = [VIEWER, USER, OP, ADMIN]"

text \<open>
  The comparison \<^verbatim>\<open>role.order >= allow_role.order\<close> that the decision makes between the
  caller's role and a minimum role.
\<close>

definition covers :: "SimpleAuthManagerRole \<Rightarrow> SimpleAuthManagerRole \<Rightarrow> bool" where
  "covers r1 r2 = (order r1 \<ge> order r2)"

section \<open>Strings\<close>

text \<open>
  A Python string is a sequence of code points. The strings of the model are Isabelle
  strings, whose characters are the code points below 256, and \<open>codepoints\<close> reads one as
  the list of its code points.

  \<^verbatim>\<open>str.upper()\<close> replaces each character by its upper case. That of a character below
  256 may lie beyond 255 (U+039C for the micro sign, U+0178 for the y with diaeresis) or
  be two characters (SS for the sharp s), so \<open>upper\<close> answers with code points: a
  lowercase ASCII letter and a lowercase letter from U+00E0 to U+00FE, the division sign
  U+00F7 apart, go 32 down; every other character below 256 stays.
\<close>

definition codepoints :: "string \<Rightarrow> nat list" where
  "codepoints s = map of_char s"

definition upper_char :: "char \<Rightarrow> nat list" where
  "upper_char c =
     (let n = (of_char c :: nat)
      in if 97 \<le> n \<and> n \<le> 122 then [n - 32]
         else if n = 181 then [924]
         else if n = 223 then [83, 83]
         else if 224 \<le> n \<and> n \<le> 254 \<and> n \<noteq> 247 then [n - 32]
         else if n = 255 then [376]
         else [n])"

definition upper :: "string \<Rightarrow> nat list" where
  "upper s = concat (map upper_char s)"

text \<open>
  \<^verbatim>\<open>SimpleAuthManagerRole[role_str]\<close>: the lookup of a member by its name. Python raises
  KeyError for a string that names no member; here that is \<open>None\<close>, and the caller
  turns it into the error.
\<close>

definition role_lookup :: "nat list \<Rightarrow> SimpleAuthManagerRole option" where
  "role_lookup role_str = map_of (map (\<lambda>r. (codepoints (name r), r)) members) role_str"

section \<open>Users, session and configuration\<close>

text \<open>
  Modelled from the spec: the class \<^verbatim>\<open>SimpleAuthManagerUser\<close> of
  \<^verbatim>\<open>airflow.auth.managers.simple.user\<close> is imported by the source file and not part of
  it. The spec describes a caller identity as a value holding a username (a string) and a
  role name (a string); the source reads the role through \<^verbatim>\<open>get_role()\<close> and tests the
  answer for being falsy, so the role is optional here. An object of the class is truthy.
\<close>

record SimpleAuthManagerUser =
  username :: string
  role :: "string option"

definition get_role :: "SimpleAuthManagerUser \<Rightarrow> string option" where
  "get_role user = role user"

text \<open>
  What the manager reads from outside: the Flask session, a dictionary that may hold the
  logged-in user under the key \<^verbatim>\<open>"user"\<close>, and the configuration flag
  \<^verbatim>\<open>core.simple_auth_manager_all_admins\<close>.
\<close>

record environment =
  session :: "string \<rightharpoonup> SimpleAuthManagerUser"
  simple_auth_manager_all_admins :: bool

datatype error = KeyError "nat list" | ValueError | JSONDecodeError

definition is_logged_in :: "environment \<Rightarrow> bool" where
  "is_logged_in env = (''user'' \<in> dom (session env) \<or> simple_auth_manager_all_admins env)"

definition get_user :: "environment \<Rightarrow> SimpleAuthManagerUser option" where
  "get_user env =
     (if \<not> is_logged_in env then None
      else if simple_auth_manager_all_admins env
        then Some \<lparr>username = ''anonymous'', role = Some ''admin''\<rparr>
      else session env ''user'')"

section \<open>The authorization decision\<close>

text \<open>
  \<^verbatim>\<open>_is_authorized(self, *, method, allow_role, allow_get_role=None, user=None)\<close>.
  The result is \<open>Inr\<close> of the boolean the method returns, or \<open>Inl\<close> of the exception
  that leaves it. The local variable \<^verbatim>\<open>role\<close> of the source is \<open>r\<close> here, since \<open>role\<close> is
  the field of the user record. A role is a tuple of two components and so truthy, the
  role of order 0 as well: \<^verbatim>\<open>not allow_get_role\<close> holds for \<^verbatim>\<open>None\<close> only.
\<close>

definition is_authorized ::
  "environment \<Rightarrow> string \<Rightarrow> SimpleAuthManagerRole \<Rightarrow> SimpleAuthManagerRole option
     \<Rightarrow> SimpleAuthManagerUser option \<Rightarrow> error + bool" where
  "is_authorized env method allow_role allow_get_role user =
     (case (case user of Some u \<Rightarrow> Some u | None \<Rightarrow> get_user env) of
        None \<Rightarrow> Inr False
      | Some u \<Rightarrow>
          (case get_role u of
             None \<Rightarrow> Inr False
           | Some user_role \<Rightarrow>
               if user_role = [] then Inr False
               else
                 (let role_str = upper user_role in
                  case role_lookup role_str of
                    None \<Rightarrow> Inl (KeyError role_str)
                  | Some r \<Rightarrow>
                      if r = ADMIN then Inr True
                      else
                        (let allow_get_role' =
                               (case allow_get_role of None \<Rightarrow> allow_role | Some g \<Rightarrow> g)
                         in if method = ''GET''
                            then Inr (order r \<ge> order allow_get_role')
                            else Inr (order r \<ge> order allow_role)))))"







definition is_authorized_view ::
  "environment \<Rightarrow> 'v \<Rightarrow> SimpleAuthManagerUser option \<Rightarrow> error + bool" where
  "is_authorized_view env access_view user =
     is_authorized env ''GET'' VIEWER None user"

definition is_authorized_custom_view ::
  "environment \<Rightarrow> string \<Rightarrow> string \<Rightarrow> SimpleAuthManagerUser option \<Rightarrow> error + bool" where
  "is_authorized_custom_view env method resource_name user =
     is_authorized env ''GET'' VIEWER None user"

section \<open>Generated passwords\<close>

text \<open>
  \<^verbatim>\<open>random.choices(population, k=16)\<close> is the standard library's: it answers with \<open>k\<close>
  elements of the population, each taken at an index below \<^verbatim>\<open>len(population)\<close> that the
  random generator decides. The generator is modelled by the sequence of the numbers it
  is going to draw; a draw, reduced below the length of the population, is the index, and
  \<open>skip\<close> is the generator after some draws. The population of the one call in the source
  is not empty.
\<close>

type_synonym rng = "nat \<Rightarrow> nat"

definition skip :: "nat \<Rightarrow> rng \<Rightarrow> rng" where
  "skip n g = (\<lambda>i. g (i + n))"

definition random_choices :: "rng \<Rightarrow> 'a list \<Rightarrow> nat \<Rightarrow> 'a list \<times> rng" where
  "random_choices g population k =
     (map (\<lambda>i. population ! (g i mod length population)) [0..<k], skip k g)"

text \<open>The string of characters \<^verbatim>\<open>_generate_password\<close> passes to \<^verbatim>\<open>random.choices\<close>.\<close>

definition alphabet :: string where
  "alphabet = ''abcdefghkmnpqrstuvwxyzABCDEFGHKMNPQRSTUVWXYZ23456789''"

text \<open>
  \<^verbatim>\<open>_generate_password()\<close>: the sixteen chosen characters joined into a string, and the
  generator after the call.
\<close>

definition generate_password :: "rng \<Rightarrow> string \<times> rng" where
  "generate_password g = random_choices g alphabet 16"

text \<open>
  The alphabet in the words of the specification: the lowercase and the uppercase
  letters without i, l, o, I, L and O, and the digits 2 to 9. It is compared with
  \<open>alphabet\<close> below.
\<close>

definition spec_alphabet :: "char set" where
  "spec_alphabet =
     (set ''abcdefghijklmnopqrstuvwxyz'' \<union> set ''ABCDEFGHIJKLMNOPQRSTUVWXYZ''
        - set ''iloILO'')
     \<union> set ''23456789''"

section \<open>Credential bootstrap\<close>

text \<open>
  \<^verbatim>\<open>str.split(sep)\<close> for a separator of one character: the pieces between the
  separators, empty pieces included.
\<close>

fun split :: "char \<Rightarrow> string \<Rightarrow> string list" where
  "split sep [] = [[]]"
| "split sep (c # cs) =
     (if c = sep then [] # split sep cs
      else (case split sep cs of w # ws \<Rightarrow> (c # w) # ws | [] \<Rightarrow> [[c]]))"

text \<open>
  \<^verbatim>\<open>get_users()\<close>, from the entries of \<^verbatim>\<open>core.simple_auth_manager_users\<close> as
  \<^verbatim>\<open>conf.getlist\<close> answers them. Each entry is split at the colons and unpacked into a
  username and a role; an entry that does not have exactly two pieces makes the unpacking
  raise ValueError. A user is the pair of the two strings.
\<close>

fun get_users :: "string list \<Rightarrow> error + (string \<times> string) list" where
  "get_users [] = Inr []"
| "get_users (u # us) =
     (case split CHR '':'' u of
        [uname, urole] \<Rightarrow>
          (case get_users us of
             Inl e \<Rightarrow> Inl e
           | Inr users \<Rightarrow> Inr ((uname, urole) # users))
      | _ \<Rightarrow> Inl ValueError)"

text \<open>
  The file of generated passwords as \<^verbatim>\<open>init\<close> finds it: absent, holding the JSON object
  of an earlier run (a dictionary from usernames to passwords), or holding text that
  \<^verbatim>\<open>json.loads\<close> rejects. \<open>read_password_file\<close> is the first step of \<^verbatim>\<open>init\<close>, which
  leaves \<^verbatim>\<open>user_passwords_from_file\<close> empty without a file and parses the file otherwise.
\<close>

datatype password_file = Absent | Content "string \<rightharpoonup> string" | Malformed

definition read_password_file :: "password_file \<Rightarrow> error + (string \<rightharpoonup> string)" where
  "read_password_file file =
     (case file of
        Absent \<Rightarrow> Inr Map.empty
      | Content user_passwords_from_file \<Rightarrow> Inr user_passwords_from_file
      | Malformed \<Rightarrow> Inl JSONDecodeError)"

text \<open>
  What the loop of \<^verbatim>\<open>init\<close> changes: the dictionary \<^verbatim>\<open>self.passwords\<close>, the random
  generator, and the messages handed to \<^verbatim>\<open>_print_output\<close>. \<open>init_body\<close> is the body of
  the loop \<^verbatim>\<open>for user in users\<close>, for one user, and \<open>init_loop\<close> is the loop. When the
  message is built the user has a password, kept or just generated.
\<close>

record init_state =
  passwords :: "string \<rightharpoonup> string"
  rng :: rng
  printed :: "string list"

definition init_body :: "string \<times> string \<Rightarrow> init_state \<Rightarrow> init_state" where
  "init_body user st =
     (let st' =
            (if fst user \<notin> dom (passwords st)
             then (let (password, g) = generate_password (rng st)
                   in st\<lparr>passwords := (passwords st)(fst user \<mapsto> password), rng := g\<rparr>)
             else st);
          message =
            (case passwords st' (fst user) of
               Some password \<Rightarrow>
                 [''Password for user '' @ [CHR 0x27] @ fst user @ [CHR 0x27] @ '': ''
                    @ password]
             | None \<Rightarrow> [])
      in st'\<lparr>printed := printed st' @ message\<rparr>)"

fun init_loop :: "(string \<times> string) list \<Rightarrow> init_state \<Rightarrow> init_state" where
  "init_loop [] st = st"
| "init_loop (user # users) st = init_loop users (init_body user st)"

text \<open>
  \<^verbatim>\<open>init()\<close>, from the configured entries, the file and the generator. It answers with
  the state after the loop and the file it has written, or with the exception that
  stopped it.
\<close>

definition init ::
  "string list \<Rightarrow> password_file \<Rightarrow> rng \<Rightarrow> error + (init_state \<times> password_file)" where
  "init conf file g =
     (case read_password_file file of
        Inl e \<Rightarrow> Inl e
      | Inr user_passwords_from_file \<Rightarrow>
          (case get_users conf of
             Inl e \<Rightarrow> Inl e
           | Inr users \<Rightarrow>
               (let usernames = set (map fst users);
                    st = init_loop users
                           \<lparr>passwords =
                              (\<lambda>uname. if uname \<in> usernames
                                        then user_passwords_from_file uname else None),
                            rng = g, printed = []\<rparr>
                in Inr (st, Content (passwords st)))))"

text \<open>
  The configured usernames that have no password yet, each once, in the order in which
  the loop meets them.
\<close>

fun missing :: "string list \<Rightarrow> string set \<Rightarrow> string list" where
  "missing [] present = []"
| "missing (u # us) present =
     (if u \<in> present then missing us present else u # missing us (insert u present))"

section \<open>Properties of the role hierarchy\<close>

lemma role_UNIV: "(UNIV :: SimpleAuthManagerRole set) = {VIEWER, USER, OP, ADMIN}"
proof -
  have "r \<in> {VIEWER, USER, OP, ADMIN}" for r :: SimpleAuthManagerRole
    by (cases r) simp_all
  then show ?thesis by blast
qed

lemma order_inj: "order r1 = order r2 \<Longrightarrow> r1 = r2"
  by (cases r1; cases r2) simp_all

lemma role_lookup_name: "role_lookup (codepoints (name r)) = Some r"
  by (cases r) (simp_all add: role_lookup_def members_def codepoints_def)

lemma role_lookup_Some: "role_lookup s = Some r \<Longrightarrow> s = codepoints (name r)"
  by (auto simp: role_lookup_def members_def split: if_splits)

lemma role_lookup_None: "\<forall>r. codepoints (name r) \<noteq> s \<Longrightarrow> role_lookup s = None"
proof (rule ccontr)
  assume no: "\<forall>r. codepoints (name r) \<noteq> s" and "role_lookup s \<noteq> None"
  then obtain r where "role_lookup s = Some r" by blast
  then have "s = codepoints (name r)" by (rule role_lookup_Some)
  with no show False by blast
qed

lemma order_le_ADMIN: "order r \<le> order ADMIN"
  by (cases r) simp_all

text \<open>
  C8. The roles are exactly VIEWER, USER, OP and ADMIN, four of them; their orders are
  0, 1, 2 and 3, strictly increasing in that sequence, and no two roles share an order;
  every role has a name that looks the role up. The covers relation, order of the first
  at least order of the second, is total and transitive on the roles.
\<close>

theorem role_hierarchy:
  "(UNIV :: SimpleAuthManagerRole set) = {VIEWER, USER, OP, ADMIN}
   \<and> card (UNIV :: SimpleAuthManagerRole set) = 4
   \<and> set members = UNIV \<and> distinct members
   \<and> map order members = [0, 1, 2, 3]
   \<and> order VIEWER < order USER \<and> order USER < order OP \<and> order OP < order ADMIN
   \<and> inj order \<and> inj name
   \<and> (\<forall>r. role_lookup (codepoints (name r)) = Some r)
   \<and> (\<forall>r1 r2. covers r1 r2 = (order r1 \<ge> order r2))
   \<and> (\<forall>r1 r2. covers r1 r2 \<or> covers r2 r1)
   \<and> (\<forall>r1 r2 r3. covers r1 r2 \<longrightarrow> covers r2 r3 \<longrightarrow> covers r1 r3)"
proof -
  have card4: "card (UNIV :: SimpleAuthManagerRole set) = 4"
    by (simp add: role_UNIV)
  have mem: "set members = UNIV" "distinct members" "map order members = [0, 1, 2, 3]"
    by (simp_all add: members_def role_UNIV)
  have inj_o: "inj order"
    by (rule injI) (rule order_inj)
  have inj_n: "inj name"
  proof (rule injI)
    fix r1 r2 assume "name r1 = name r2"
    then have "role_lookup (codepoints (name r1)) = role_lookup (codepoints (name r2))"
      by simp
    then show "r1 = r2" by (simp add: role_lookup_name)
  qed
  have total: "covers r1 r2 \<or> covers r2 r1" for r1 r2
    unfolding covers_def by linarith
  have trans: "covers r1 r2 \<longrightarrow> covers r2 r3 \<longrightarrow> covers r1 r3" for r1 r2 r3
    unfolding covers_def by linarith
  show ?thesis
    using role_UNIV card4 mem inj_o inj_n role_lookup_name total trans
    by (simp add: covers_def)
qed

theorem role_hierarchy_witness:
  "covers ADMIN OP \<and> covers OP VIEWER \<and> covers ADMIN VIEWER \<and> \<not> covers VIEWER ADMIN"
proof -
  have t: "covers ADMIN OP \<longrightarrow> covers OP VIEWER \<longrightarrow> covers ADMIN VIEWER"
    using role_hierarchy by blast
  have a: "covers ADMIN OP" by (simp add: covers_def)
  have b: "covers OP VIEWER" by (simp add: covers_def)
  have c: "\<not> covers VIEWER ADMIN" by (simp add: covers_def)
  from t a b c show ?thesis by blast
qed

section \<open>Properties of the authorization decision\<close>

text \<open>
  The caller whose role decides is the \<^verbatim>\<open>user\<close> argument or, when that is \<^verbatim>\<open>None\<close>, the
  current user: \<^verbatim>\<open>user = user or self.get_user()\<close>. The lemmas below unfold the
  decision once for each way it can end.
\<close>

lemma is_authorized_no_caller:
  "(case user of Some u \<Rightarrow> Some u | None \<Rightarrow> get_user env) = None
   \<Longrightarrow> is_authorized env method allow_role allow_get_role user = Inr False"
  by (simp add: is_authorized_def)

lemma is_authorized_falsy_role:
  "(case user of Some u \<Rightarrow> Some u | None \<Rightarrow> get_user env) = Some u
   \<Longrightarrow> get_role u = None \<or> get_role u = Some []
   \<Longrightarrow> is_authorized env method allow_role allow_get_role user = Inr False"
  by (auto simp: is_authorized_def)

lemma role_lookup_Nil: "role_lookup [] = None"
  by (simp add: role_lookup_def members_def codepoints_def)

lemma is_authorized_lookup:
  "(case user of Some u \<Rightarrow> Some u | None \<Rightarrow> get_user env) = Some u
   \<Longrightarrow> get_role u = Some user_role \<Longrightarrow> user_role \<noteq> []
   \<Longrightarrow> is_authorized env method allow_role allow_get_role user =
       (case role_lookup (upper user_role) of
          None \<Rightarrow> Inl (KeyError (upper user_role))
        | Some r \<Rightarrow>
            Inr (r = ADMIN \<or>
                 order r \<ge> order (if method = ''GET''
                                    then (case allow_get_role of None \<Rightarrow> allow_role | Some g \<Rightarrow> g)
                                    else allow_role)))"
  by (simp add: is_authorized_def Let_def split: option.splits)

lemma role_lookup_nonempty: "role_lookup (upper user_role) = Some r \<Longrightarrow> user_role \<noteq> []"
  by (auto simp: upper_def role_lookup_Nil)


text \<open>
  C1, as the code has it. A caller whose role name, in upper case, is the name of no role
  is denied only when the role name is the empty string. For every other such role name
  the lookup \<^verbatim>\<open>SimpleAuthManagerRole[role_str]\<close> raises KeyError with the upper-case
  string, and nothing in the decision catches it: the exception reaches the invoker, for
  every method and every pair of minimum roles.
\<close>

theorem unknown_role_raises:
  assumes "(case user of Some u \<Rightarrow> Some u | None \<Rightarrow> get_user env) = Some u"
    and "get_role u = Some user_role"
    and "\<forall>r. codepoints (name r) \<noteq> upper user_role"
  shows "is_authorized env method allow_role allow_get_role user
           = (if user_role = [] then Inr False else Inl (KeyError (upper user_role)))"
proof (cases "user_role = []")
  case True
  with assms(1,2) show ?thesis
    by (simp add: is_authorized_falsy_role)
next
  case False
  from assms(3) have "role_lookup (upper user_role) = None"
    by (rule role_lookup_None)
  with assms(1,2) False show ?thesis
    by (simp add: is_authorized_lookup)
qed

text \<open>
  Two callers of unknown role: the role name \<^verbatim>\<open>guest\<close>, and the role name of the two
  characters U+00E9 and U+00DF, whose upper case is U+00C9 followed by SS.
\<close>

theorem unknown_role_raises_witness:
  "get_role \<lparr>username = ''bob'', role = Some ''guest''\<rparr> = Some ''guest''
   \<and> (\<forall>r. codepoints (name r) \<noteq> upper ''guest'')
   \<and> is_authorized \<lparr>session = Map.empty, simple_auth_manager_all_admins = False\<rparr>
        ''POST'' OP (Some VIEWER) (Some \<lparr>username = ''bob'', role = Some ''guest''\<rparr>)
       = Inl (KeyError (codepoints ''GUEST''))
   \<and> is_authorized \<lparr>session = Map.empty, simple_auth_manager_all_admins = False\<rparr>
        ''POST'' OP (Some VIEWER)
        (Some \<lparr>username = ''bob'', role = Some [CHR 0xE9, CHR 0xDF]\<rparr>)
       = Inl (KeyError [201, 83, 83])"
proof -
  have h1: "(case Some x of Some u \<Rightarrow> Some u
      | None \<Rightarrow> get_user \<lparr>session = Map.empty, simple_auth_manager_all_admins = False\<rparr>)
     = Some x" for x :: SimpleAuthManagerUser
    by simp
  have h2: "get_role \<lparr>username = ''bob'', role = Some ''guest''\<rparr> = Some ''guest''"
    by (simp add: get_role_def)
  have up: "upper ''guest'' = codepoints ''GUEST''"
    by (simp add: upper_def upper_char_def codepoints_def)
  have h3: "\<forall>r. codepoints (name r) \<noteq> upper ''guest''"
  proof
    fix r show "codepoints (name r) \<noteq> upper ''guest''"
      by (cases r) (simp_all add: up codepoints_def)
  qed
  have k2: "get_role \<lparr>username = ''bob'', role = Some [CHR 0xE9, CHR 0xDF]\<rparr>
      = Some [CHR 0xE9, CHR 0xDF]"
    by (simp add: get_role_def)
  have up': "upper [CHR 0xE9, CHR 0xDF] = [201, 83, 83]"
    by (simp add: upper_def upper_char_def)
  have k3: "\<forall>r. codepoints (name r) \<noteq> upper [CHR 0xE9, CHR 0xDF]"
  proof
    fix r show "codepoints (name r) \<noteq> upper [CHR 0xE9, CHR 0xDF]"
      by (cases r) (simp_all add: up' codepoints_def)
  qed
  from unknown_role_raises [OF h1 h2 h3, of "''POST''" OP "Some VIEWER"]
       unknown_role_raises [OF h1 k2 k3, of "''POST''" OP "Some VIEWER"]
       h2 h3 up up'
  show ?thesis by simp
qed

text \<open>
  Against the claim as the specification states it: the caller bob has the role name
  \<^verbatim>\<open>manager\<close>, which in upper case names no role, and asks for a GET on a resource whose
  minimum role is VIEWER. The decision is not the answer false but the exception KeyError.
\<close>

theorem unknown_role_counterexample:
  "role_lookup (upper ''manager'') = None
   \<and> is_authorized \<lparr>session = Map.empty, simple_auth_manager_all_admins = False\<rparr>
        ''GET'' VIEWER None (Some \<lparr>username = ''bob'', role = Some ''manager''\<rparr>)
       = Inl (KeyError (codepoints ''MANAGER''))
   \<and> is_authorized \<lparr>session = Map.empty, simple_auth_manager_all_admins = False\<rparr>
        ''GET'' VIEWER None (Some \<lparr>username = ''bob'', role = Some ''manager''\<rparr>)
       \<noteq> Inr False"
  by (simp add: is_authorized_def get_role_def upper_def upper_char_def role_lookup_def
      members_def codepoints_def)

text \<open>
  C2. A caller whose role name resolves to ADMIN, the role of the highest order, is
  allowed, whatever the method and whatever the two minimum roles are, the minimum ADMIN
  included; no order is compared.
\<close>

theorem admin_always_allowed:
  assumes "(case user of Some u \<Rightarrow> Some u | None \<Rightarrow> get_user env) = Some u"
    and "get_role u = Some user_role"
    and "role_lookup (upper user_role) = Some ADMIN"
  shows "is_authorized env method allow_role allow_get_role user = Inr True
         \<and> (\<forall>r. order r \<le> order ADMIN)"
  using assms role_lookup_nonempty [of user_role ADMIN] order_le_ADMIN
  by (simp add: is_authorized_lookup)

theorem admin_always_allowed_witness:
  "(case Some \<lparr>username = ''root'', role = Some ''Admin''\<rparr> of Some u \<Rightarrow> Some u
      | None \<Rightarrow> get_user \<lparr>session = Map.empty, simple_auth_manager_all_admins = False\<rparr>)
     = Some \<lparr>username = ''root'', role = Some ''Admin''\<rparr>
   \<and> get_role \<lparr>username = ''root'', role = Some ''Admin''\<rparr> = Some ''Admin''
   \<and> role_lookup (upper ''Admin'') = Some ADMIN
   \<and> is_authorized \<lparr>session = Map.empty, simple_auth_manager_all_admins = False\<rparr>
        ''DELETE'' ADMIN (Some ADMIN) (Some \<lparr>username = ''root'', role = Some ''Admin''\<rparr>)
       = Inr True"
proof -
  have h1: "(case Some \<lparr>username = ''root'', role = Some ''Admin''\<rparr> of Some u \<Rightarrow> Some u
      | None \<Rightarrow> get_user \<lparr>session = Map.empty, simple_auth_manager_all_admins = False\<rparr>)
     = Some \<lparr>username = ''root'', role = Some ''Admin''\<rparr>"
    by simp
  have h2: "get_role \<lparr>username = ''root'', role = Some ''Admin''\<rparr> = Some ''Admin''"
    by (simp add: get_role_def)
  have h3: "role_lookup (upper ''Admin'') = Some ADMIN"
    by (simp add: upper_def upper_char_def role_lookup_def members_def codepoints_def)
  from admin_always_allowed [OF h1 h2 h3, of "''DELETE''" ADMIN "Some ADMIN"] h1 h2 h3
  show ?thesis by simp
qed

text \<open>
  C3. For a caller whose role name resolves to a role other than ADMIN, the decision is
  the comparison of orders against the effective minimum: the read minimum
  \<^verbatim>\<open>allow_get_role\<close> when the method is GET and a read minimum is given, the general
  minimum \<^verbatim>\<open>allow_role\<close> otherwise. With general minimum OP and read minimum VIEWER, a
  USER or a VIEWER caller is allowed on GET and denied on every other method, and an OP
  caller is allowed on every method.
\<close>

theorem non_admin_decision:
  assumes "(case user of Some u \<Rightarrow> Some u | None \<Rightarrow> get_user env) = Some u"
    and "get_role u = Some user_role"
    and "role_lookup (upper user_role) = Some r"
    and "r \<noteq> ADMIN"
  shows "is_authorized env method allow_role allow_get_role user =
           Inr (order r \<ge> order (if method = ''GET''
                  then (case allow_get_role of Some g \<Rightarrow> g | None \<Rightarrow> allow_role)
                  else allow_role))
         \<and> (r = USER \<or> r = VIEWER \<longrightarrow>
              is_authorized env ''GET'' OP (Some VIEWER) user = Inr True
              \<and> (method \<noteq> ''GET'' \<longrightarrow>
                    is_authorized env method OP (Some VIEWER) user = Inr False))
         \<and> (r = OP \<longrightarrow> is_authorized env method OP (Some VIEWER) user = Inr True)"
proof -
  have ne: "user_role \<noteq> []"
    using assms(3) by (rule role_lookup_nonempty)
  have gen: "is_authorized env m a g user =
      Inr (order r \<ge> order (if m = ''GET''
             then (case g of Some x \<Rightarrow> x | None \<Rightarrow> a) else a))" for m a g
    using assms ne by (cases g) (simp_all add: is_authorized_lookup)
  show ?thesis
    by (auto simp: gen)
qed

theorem non_admin_decision_witness:
  "is_authorized \<lparr>session = Map.empty, simple_auth_manager_all_admins = False\<rparr>
       ''GET'' OP (Some VIEWER) (Some \<lparr>username = ''eve'', role = Some ''user''\<rparr>) = Inr True
   \<and> is_authorized \<lparr>session = Map.empty, simple_auth_manager_all_admins = False\<rparr>
       ''POST'' OP (Some VIEWER) (Some \<lparr>username = ''eve'', role = Some ''user''\<rparr>) = Inr False
   \<and> is_authorized \<lparr>session = Map.empty, simple_auth_manager_all_admins = False\<rparr>
       ''POST'' USER None (Some \<lparr>username = ''eve'', role = Some ''user''\<rparr>) = Inr True"
proof -
  have h1: "(case Some \<lparr>username = ''eve'', role = Some ''user''\<rparr> of Some u \<Rightarrow> Some u
      | None \<Rightarrow> get_user \<lparr>session = Map.empty, simple_auth_manager_all_admins = False\<rparr>)
     = Some \<lparr>username = ''eve'', role = Some ''user''\<rparr>"
    by simp
  have h2: "get_role \<lparr>username = ''eve'', role = Some ''user''\<rparr> = Some ''user''"
    by (simp add: get_role_def)
  have h3: "role_lookup (upper ''user'') = Some USER"
    by (simp add: upper_def upper_char_def role_lookup_def members_def codepoints_def)
  have h4: "USER \<noteq> ADMIN" by simp
  have post: "''POST'' \<noteq> ''GET''" by simp
  from non_admin_decision [OF h1 h2 h3 h4, of "''POST''" USER None] post
  show ?thesis by simp
qed

text \<open>
  C4. When no caller is given and nobody is authenticated, no user in the session and
  the all-admins flag off, so that \<^verbatim>\<open>user or self.get_user()\<close> is \<^verbatim>\<open>None\<close>, the decision
  is false for every method and every pair of minimum roles, and no exception is raised.
\<close>

theorem no_caller_denied:
  assumes "get_user env = None"
  shows "is_authorized env method allow_role allow_get_role None = Inr False"
  using assms by (simp add: is_authorized_no_caller)

theorem no_caller_denied_witness:
  "get_user \<lparr>session = Map.empty, simple_auth_manager_all_admins = False\<rparr> = None
   \<and> is_authorized \<lparr>session = Map.empty, simple_auth_manager_all_admins = False\<rparr>
        ''GET'' VIEWER None None = Inr False"
proof -
  have h: "get_user \<lparr>session = Map.empty, simple_auth_manager_all_admins = False\<rparr> = None"
    by (simp add: get_user_def is_logged_in_def)
  from no_caller_denied [OF h, of "''GET''" VIEWER None] h show ?thesis by simp
qed

text \<open>
  C9. A caller who is present and whose role is missing or the empty string is denied,
  for every method and every pair of minimum roles: the answer is false before the role
  is looked up, and no exception is raised.
\<close>

theorem falsy_role_denied:
  assumes "(case user of Some u \<Rightarrow> Some u | None \<Rightarrow> get_user env) = Some u"
    and "get_role u = None \<or> get_role u = Some []"
  shows "is_authorized env method allow_role allow_get_role user = Inr False"
  using assms by (rule is_authorized_falsy_role)

theorem falsy_role_denied_witness:
  "is_authorized \<lparr>session = Map.empty, simple_auth_manager_all_admins = False\<rparr>
       ''GET'' VIEWER None (Some \<lparr>username = ''ann'', role = Some []\<rparr>) = Inr False
   \<and> is_authorized \<lparr>session = Map.empty, simple_auth_manager_all_admins = False\<rparr>
       ''GET'' VIEWER None (Some \<lparr>username = ''ann'', role = None\<rparr>) = Inr False"
proof -
  have a: "get_role \<lparr>username = ''ann'', role = Some []\<rparr> = None
         \<or> get_role \<lparr>username = ''ann'', role = Some []\<rparr> = Some []"
    by (simp add: get_role_def)
  have b: "get_role \<lparr>username = ''ann'', role = None\<rparr> = None
         \<or> get_role \<lparr>username = ''ann'', role = None\<rparr> = Some []"
    by (simp add: get_role_def)
  have c: "(case Some x of Some u \<Rightarrow> Some u
      | None \<Rightarrow> get_user \<lparr>session = Map.empty, simple_auth_manager_all_admins = False\<rparr>)
     = Some x" for x :: SimpleAuthManagerUser
    by simp
  from falsy_role_denied [OF c a, of "''GET''" VIEWER None]
       falsy_role_denied [OF c b, of "''GET''" VIEWER None]
  show ?thesis by simp
qed



text \<open>
  C10. The two view checks do not read a method: \<open>is_authorized_view\<close> takes none, and
  \<open>is_authorized_custom_view\<close> gives the same answer for any two methods (and resource
  names). Both are the decision for the method GET with minimum role VIEWER.
\<close>

theorem views_ignore_method:
  "is_authorized_custom_view env m1 resource_name user
     = is_authorized_custom_view env m2 resource_name' user
   \<and> is_authorized_custom_view env m1 resource_name user
       = is_authorized env ''GET'' VIEWER None user
   \<and> is_authorized_view env access_view user
       = is_authorized env ''GET'' VIEWER None user"
  by (simp add: is_authorized_custom_view_def is_authorized_view_def)

section \<open>Properties of the credential bootstrap\<close>

lemma skip_skip: "skip m (skip n g) = skip (n + m) g"
  by (simp add: skip_def ac_simps)

lemma skip_0: "skip 0 g = g"
  by (simp add: skip_def)

lemma generate_password_rng: "snd (generate_password g) = skip 16 g"
  by (simp add: generate_password_def random_choices_def)

lemma passwords_init_body:
  "passwords (init_body user st) =
     (if fst user \<in> dom (passwords st) then passwords st
      else (passwords st)(fst user \<mapsto> fst (generate_password (rng st))))"
  by (simp add: init_body_def Let_def split: prod.splits)

lemma rng_init_body:
  "rng (init_body user st) =
     (if fst user \<in> dom (passwords st) then rng st else skip 16 (rng st))"
  using generate_password_rng [of "rng st"]
  by (auto simp: init_body_def Let_def split: prod.splits)

lemma dom_init_body:
  "dom (passwords (init_body user st)) = insert (fst user) (dom (passwords st))"
  by (auto simp: passwords_init_body)

lemma init_body_keeps:
  "u \<in> dom (passwords st) \<Longrightarrow> passwords (init_body user st) u = passwords st u"
  by (auto simp: passwords_init_body)

lemma init_loop_keeps:
  "u \<in> dom (passwords st) \<Longrightarrow> passwords (init_loop users st) u = passwords st u"
proof (induction users arbitrary: st)
  case Nil
  then show ?case by simp
next
  case (Cons user users)
  from Cons.prems have "u \<in> dom (passwords (init_body user st))"
    by (simp add: dom_init_body)
  from Cons.IH [OF this] Cons.prems show ?case
    by (simp add: init_body_keeps)
qed

lemma init_loop_dom:
  "dom (passwords (init_loop users st)) = dom (passwords st) \<union> set (map fst users)"
  by (induction users arbitrary: st) (auto simp: dom_init_body)

lemma set_missing: "set (missing us present) = set us - present"
  by (induction us arbitrary: present) auto

lemma distinct_missing: "distinct (missing us present)"
  by (induction us arbitrary: present) (auto simp: set_missing)

lemma init_loop_rng:
  "rng (init_loop users st)
     = skip (16 * length (missing (map fst users) (dom (passwords st)))) (rng st)"
  by (induction users arbitrary: st)
     (simp_all add: skip_0 skip_skip dom_init_body rng_init_body insert_absorb)

lemma init_loop_new:
  "k < length (missing (map fst users) (dom (passwords st)))
   \<Longrightarrow> passwords (init_loop users st) (missing (map fst users) (dom (passwords st)) ! k)
         = Some (fst (generate_password (skip (16 * k) (rng st))))"
proof (induction users arbitrary: st k)
  case Nil
  then show ?case by simp
next
  case (Cons user users)
  show ?case
  proof (cases "fst user \<in> dom (passwords st)")
    case True
    then have same: "dom (passwords (init_body user st)) = dom (passwords st)"
      "rng (init_body user st) = rng st"
      by (simp_all add: dom_init_body rng_init_body insert_absorb)
    from Cons.prems True
    have "k < length (missing (map fst users) (dom (passwords (init_body user st))))"
      by (simp add: same)
    from Cons.IH [OF this] True show ?thesis by (simp add: same)
  next
    case False
    note d = dom_init_body [of user st]
    show ?thesis
    proof (cases k)
      case 0
      from False have "passwords (init_body user st) (fst user)
          = Some (fst (generate_password (rng st)))"
        by (simp add: passwords_init_body)
      moreover have "fst user \<in> dom (passwords (init_body user st))"
        by (simp add: d)
      ultimately have "passwords (init_loop users (init_body user st)) (fst user)
          = Some (fst (generate_password (rng st)))"
        by (simp add: init_loop_keeps)
      with 0 False show ?thesis by (simp add: skip_0)
    next
      case (Suc j)
      with Cons.prems False
      have "j < length (missing (map fst users) (dom (passwords (init_body user st))))"
        by (simp add: d)
      from Cons.IH [OF this] Suc False show ?thesis
        by (simp add: d rng_init_body skip_skip)
    qed
  qed
qed

lemma missing_cong:
  "present \<inter> set us = present' \<inter> set us \<Longrightarrow> missing us present = missing us present'"
proof (induction us arbitrary: present present')
  case Nil
  then show ?case by simp
next
  case (Cons u us)
  from Cons.prems have mem: "u \<in> present \<longleftrightarrow> u \<in> present'" by auto
  from Cons.prems have a: "present \<inter> set us = present' \<inter> set us" by auto
  from Cons.prems have b: "insert u present \<inter> set us = insert u present' \<inter> set us" by auto
  from mem Cons.IH [OF a] Cons.IH [OF b] show ?case by simp
qed


lemma length_generate_password: "length (fst (generate_password g)) = 16"
  by (simp add: generate_password_def random_choices_def)

lemma length_alphabet: "length alphabet = 52"
  by (simp add: alphabet_def)

lemma distinct_alphabet: "distinct alphabet"
  by (simp add: alphabet_def)

lemma nth_generate_password:
  "j < 16 \<Longrightarrow> fst (generate_password g) ! j = alphabet ! (g j mod 52)"
  by (simp add: generate_password_def random_choices_def length_alphabet)

lemma set_generate_password: "set (fst (generate_password g)) \<subseteq> set alphabet"
proof
  fix c assume "c \<in> set (fst (generate_password g))"
  then obtain j where j: "j < 16" and c: "c = fst (generate_password g) ! j"
    by (auto simp: in_set_conv_nth length_generate_password)
  have "g j mod 52 < length alphabet"
    by (simp add: length_alphabet)
  then have "alphabet ! (g j mod 52) \<in> set alphabet"
    by (rule nth_mem)
  with j c show "c \<in> set alphabet"
    by (simp add: nth_generate_password)
qed

lemma set_alphabet: "set alphabet = spec_alphabet - {CHR ''j'', CHR ''J''}"
  by (auto simp: alphabet_def spec_alphabet_def)

lemma alphabet_excluded: "set alphabet \<inter> set ''ijloIJLO'' = {}"
  by (simp add: alphabet_def)

lemma every_password_possible:
  assumes len: "length s = 16" and sub: "set s \<subseteq> set alphabet"
  shows "\<exists>g. fst (generate_password g) = s"
proof -
  have "\<forall>i. \<exists>k. i < 16 \<longrightarrow> k < 52 \<and> alphabet ! k = s ! i"
  proof (intro allI)
    fix i
    show "\<exists>k. i < 16 \<longrightarrow> k < 52 \<and> alphabet ! k = s ! i"
    proof (cases "i < 16")
      case True
      with len sub have "s ! i \<in> set alphabet" by (auto simp: subset_eq)
      then obtain k where "k < length alphabet" "alphabet ! k = s ! i"
        by (auto simp: in_set_conv_nth)
      with True show ?thesis by (auto simp: length_alphabet)
    next
      case False
      then show ?thesis by simp
    qed
  qed
  then have "\<exists>g. \<forall>i. i < 16 \<longrightarrow> g i < 52 \<and> alphabet ! g i = s ! i"
    by (rule choice)
  then obtain g where g: "\<forall>i. i < 16 \<longrightarrow> g i < 52 \<and> alphabet ! g i = s ! i"
    by blast
  have "fst (generate_password g) = s"
  proof (rule nth_equalityI)
    show "length (fst (generate_password g)) = length s"
      by (simp add: len length_generate_password)
  next
    fix i assume "i < length (fst (generate_password g))"
    then have i: "i < 16" by (simp add: length_generate_password)
    with g have "g i mod 52 = g i" and "alphabet ! g i = s ! i" by auto
    with i show "fst (generate_password g) ! i = s ! i"
      by (simp add: nth_generate_password)
  qed
  then show ?thesis by blast
qed

text \<open>
  C5. When the file reads as the dictionary \<open>stored\<close> and the configured entries parse
  into \<open>users\<close>, \<open>init\<close> returns, and the passwords it leaves and writes to the file have
  exactly the configured usernames as keys; a configured username that \<open>stored\<close> has
  keeps the password stored for it; the configured usernames that \<open>stored\<close> lacks, taken
  once each in the order of the configuration, get the passwords of successive calls of
  the generator, and the generator has made exactly one call for each of them.
\<close>

theorem init_reconciles:
  assumes "read_password_file file = Inr stored" and "get_users conf = Inr users"
  shows "\<exists>st. init conf file g = Inr (st, Content (passwords st))
           \<and> dom (passwords st) = set (map fst users)
           \<and> (\<forall>u \<in> set (map fst users). u \<in> dom stored \<longrightarrow> passwords st u = stored u)
           \<and> set (missing (map fst users) (dom stored)) = set (map fst users) - dom stored
           \<and> distinct (missing (map fst users) (dom stored))
           \<and> (\<forall>k < length (missing (map fst users) (dom stored)).
                 passwords st (missing (map fst users) (dom stored) ! k)
                   = Some (fst (generate_password (skip (16 * k) g))))
           \<and> rng st = skip (16 * length (missing (map fst users) (dom stored))) g"
proof -
  let ?names = "map fst users"
  let ?start = "\<lparr>passwords = (\<lambda>uname. if uname \<in> set ?names then stored uname else None),
               rng = g, printed = []\<rparr>"
  let ?final = "init_loop users ?start"
  have run: "init conf file g = Inr (?final, Content (passwords ?final))"
    using assms by (simp add: init_def Let_def)
  have d0: "dom (passwords ?start) = dom stored \<inter> set ?names"
    by (force split: if_splits)
  have m: "missing ?names (dom (passwords ?start)) = missing ?names (dom stored)"
    by (rule missing_cong, simp only: d0, blast)
  have "dom (passwords ?final) = dom (passwords ?start) \<union> set ?names"
    by (rule init_loop_dom)
  then have dom: "dom (passwords ?final) = set ?names"
    by (simp only: d0, blast)
  have keep: "passwords ?final u = stored u" if "u \<in> set ?names" "u \<in> dom stored" for u
  proof -
    from that have "u \<in> dom (passwords ?start)" by (simp only: d0) simp
    from init_loop_keeps [OF this] that show ?thesis by simp
  qed
  have new: "passwords ?final (missing ?names (dom stored) ! k)
      = Some (fst (generate_password (skip (16 * k) g)))"
    if "k < length (missing ?names (dom stored))" for k
    using init_loop_new [of k users ?start] that by (simp only: m) simp
  have r: "rng ?final = skip (16 * length (missing ?names (dom stored))) g"
    using init_loop_rng [of users ?start] by (simp only: m) simp
  from run dom keep new r show ?thesis
    by (intro exI [of _ ?final]) (simp add: set_missing distinct_missing)
qed

text \<open>
  The example of the specification: the file holds alice with X and bob with Y, and the
  configuration names alice and carol. Alice keeps X, carol gets the password of the
  first call of the generator, and bob has no entry.
\<close>

theorem init_reconciles_witness:
  "read_password_file (Content [''alice'' \<mapsto> ''X'', ''bob'' \<mapsto> ''Y''])
     = Inr [''alice'' \<mapsto> ''X'', ''bob'' \<mapsto> ''Y'']
   \<and> get_users [''alice:admin'', ''carol:viewer'']
       = Inr [(''alice'', ''admin''), (''carol'', ''viewer'')]
   \<and> (\<exists>st. init [''alice:admin'', ''carol:viewer'']
               (Content [''alice'' \<mapsto> ''X'', ''bob'' \<mapsto> ''Y'']) (\<lambda>i. 7 * i + 3)
              = Inr (st, Content (passwords st))
           \<and> passwords st ''alice'' = Some ''X''
           \<and> passwords st ''carol'' = Some ''dnvCMU3ahszGRY7e''
           \<and> passwords st ''bob'' = None)"
proof -
  let ?stored = "[''alice'' \<mapsto> ''X'', ''bob'' \<mapsto> ''Y'']"
  let ?users = "[(''alice'', ''admin''), (''carol'', ''viewer'')]"
  have r: "read_password_file (Content ?stored) = Inr ?stored"
    by (simp add: read_password_file_def)
  have u: "get_users [''alice:admin'', ''carol:viewer''] = Inr ?users"
    by simp
  have mis: "missing (map fst ?users) (dom ?stored) = [''carol'']"
    by simp
  have gen: "fst (generate_password (skip (16 * 0) (\<lambda>i. 7 * i + 3))) = ''dnvCMU3ahszGRY7e''"
    by (simp add: skip_def generate_password_def random_choices_def alphabet_def
        upt_conv_Cons)
  from init_reconciles [OF r u, of "\<lambda>i. 7 * i + 3"]
  obtain st where st:
    "init [''alice:admin'', ''carol:viewer''] (Content ?stored) (\<lambda>i. 7 * i + 3)
       = Inr (st, Content (passwords st))"
    "dom (passwords st) = set (map fst ?users)"
    "\<forall>u \<in> set (map fst ?users). u \<in> dom ?stored \<longrightarrow> passwords st u = ?stored u"
    "\<forall>k < length (missing (map fst ?users) (dom ?stored)).
       passwords st (missing (map fst ?users) (dom ?stored) ! k)
         = Some (fst (generate_password (skip (16 * k) (\<lambda>i. 7 * i + 3))))"
    by blast
  from st(3) have alice: "passwords st ''alice'' = Some ''X''"
    by simp
  from st(4) have "passwords st ([''carol''] ! 0)
      = Some (fst (generate_password (skip (16 * 0) (\<lambda>i. 7 * i + 3))))"
    unfolding mis by simp
  then have carol: "passwords st ''carol'' = Some ''dnvCMU3ahszGRY7e''"
    unfolding gen by simp
  from st(2) have "''bob'' \<notin> dom (passwords st)"
    by simp
  then have bob: "passwords st ''bob'' = None"
    by blast
  from r u st(1) alice carol bob show ?thesis
    by blast
qed

text \<open>
  C6, as the code has it. A generated password has sixteen characters. Each is the
  character of the alphabet at the index the generator draws, and the alphabet is the one
  of the specification without j and J as well: 52 characters, each once. So every
  character of a password is in that alphabet, none is one of i, j, l, o, I, J, L, O, and
  every string of sixteen characters of the alphabet is the password of some run of the
  generator. How the draws are distributed is the generator's matter and no part of this.
\<close>

theorem generated_password_shape:
  "length (fst (generate_password g)) = 16
   \<and> (\<forall>j < 16. fst (generate_password g) ! j = alphabet ! (g j mod length alphabet))
   \<and> set (fst (generate_password g)) \<subseteq> set alphabet
   \<and> set alphabet = spec_alphabet - {CHR ''j'', CHR ''J''}
   \<and> length alphabet = 52 \<and> distinct alphabet
   \<and> set (fst (generate_password g)) \<inter> set ''ijloIJLO'' = {}
   \<and> (\<forall>s. length s = 16 \<and> set s \<subseteq> set alphabet
          \<longrightarrow> (\<exists>g'. fst (generate_password g') = s))"
proof -
  have excl: "set (fst (generate_password g)) \<inter> set ''ijloIJLO'' = {}"
    using set_generate_password [of g] alphabet_excluded by blast
  have poss: "\<forall>s. length s = 16 \<and> set s \<subseteq> set alphabet
      \<longrightarrow> (\<exists>g'. fst (generate_password g') = s)"
    using every_password_possible by blast
  have nth: "\<forall>j < 16. fst (generate_password g) ! j = alphabet ! (g j mod length alphabet)"
    by (simp add: nth_generate_password length_alphabet)
  show ?thesis
    by (intro conjI)
       (fact length_generate_password nth set_generate_password set_alphabet
             length_alphabet distinct_alphabet excl poss)+
qed

theorem generated_password_shape_witness:
  "fst (generate_password (\<lambda>i. 7 * i + 3)) = ''dnvCMU3ahszGRY7e''
   \<and> length ''dnvCMU3ahszGRY7e'' = 16
   \<and> set ''dnvCMU3ahszGRY7e'' \<subseteq> set alphabet
   \<and> set ''dnvCMU3ahszGRY7e'' \<inter> set ''ijloIJLO'' = {}"
proof -
  have gen: "fst (generate_password (\<lambda>i. 7 * i + 3)) = ''dnvCMU3ahszGRY7e''"
    by (simp add: generate_password_def random_choices_def alphabet_def upt_conv_Cons)
  from generated_password_shape [of "\<lambda>i. 7 * i + 3"]
  have "length (fst (generate_password (\<lambda>i. 7 * i + 3))) = 16"
    and "set (fst (generate_password (\<lambda>i. 7 * i + 3))) \<subseteq> set alphabet"
    and "set (fst (generate_password (\<lambda>i. 7 * i + 3))) \<inter> set ''ijloIJLO'' = {}"
    by blast+
  with gen show ?thesis
    by (simp only: simp_thms)
qed

text \<open>
  Against the claim as the specification states it: the letters j and J belong to the
  alphabet the specification describes, and the alphabet of the code has neither.
\<close>

theorem alphabet_counterexample:
  "CHR ''j'' \<in> spec_alphabet \<and> CHR ''j'' \<notin> set alphabet
   \<and> CHR ''J'' \<in> spec_alphabet \<and> CHR ''J'' \<notin> set alphabet"
  by (simp add: spec_alphabet_def alphabet_def)

end
